theory Spec2Isabelle
  imports Complex_Main "HOL-Library.AList"
begin

section \<open>Strings\<close>

text \<open>
  A Python \<open>str\<close> is modelled as a \<open>string\<close>; a \<open>char\<close> stands for the code point
  \<open>of_char c\<close>. The documentation pages and the OpenAPI document are ASCII text, and the
  character classes below are the ASCII parts of Python's: \<open>[A-Z]\<close>, \<open>[a-z]\<close>, \<open>\d\<close>,
  the white space removed by \<open>str.strip()\<close>, \<open>str.lower()\<close> and \<open>str.upper()\<close>.
\<close>

definition is_upper :: "char \<Rightarrow> bool" where
  "is_upper c = (65 \<le> (of_char c :: nat) \<and> (of_char c :: nat) \<le> 90)"

definition is_lower :: "char \<Rightarrow> bool" where
  "is_lower c = (97 \<le> (of_char c :: nat) \<and> (of_char c :: nat) \<le> 122)"

definition is_digit :: "char \<Rightarrow> bool" where
  "is_digit c = (48 \<le> (of_char c :: nat) \<and> (of_char c :: nat) \<le> 57)"

definition is_space :: "char \<Rightarrow> bool" where
  "is_space c = ((9 \<le> (of_char c :: nat) \<and> (of_char c :: nat) \<le> 13)
     \<or> (28 \<le> (of_char c :: nat) \<and> (of_char c :: nat) \<le> 32))"

definition lower_char :: "char \<Rightarrow> char" where
  "lower_char c = (if is_upper c then char_of ((of_char c :: nat) + 32) else c)"

definition upper_char :: "char \<Rightarrow> char" where
  "upper_char c = (if is_lower c then char_of ((of_char c :: nat) - 32) else c)"

definition lower :: "string \<Rightarrow> string" where
  "lower s = map lower_char s"

definition upper :: "string \<Rightarrow> string" where
  "upper s = map upper_char s"

text \<open>\<open>s.strip(chars)\<close> and \<open>s.strip()\<close>: the characters are removed at both ends.\<close>

definition strip_with :: "(char \<Rightarrow> bool) \<Rightarrow> string \<Rightarrow> string" where
  "strip_with P s = rev (dropWhile P (rev (dropWhile P s)))"

definition strip :: "string \<Rightarrow> string" where
  "strip s = strip_with is_space s"

definition startswith :: "string \<Rightarrow> string \<Rightarrow> bool" where
  "startswith s p = (take (length p) s = p)"

text \<open>\<open>sub in s\<close> on strings: \<open>sub\<close> occurs in \<open>s\<close> as a contiguous piece.\<close>

fun contains :: "string \<Rightarrow> string \<Rightarrow> bool" where
  "contains [] sub = (sub = [])"
| "contains (c # cs) sub = (startswith (c # cs) sub \<or> contains cs sub)"

text \<open>\<open>s.isdigit()\<close>: at least one character, and digits only.\<close>

definition isdigit :: "string \<Rightarrow> bool" where
  "isdigit s = (s \<noteq> [] \<and> list_all is_digit s)"

text \<open>\<open>s.split(sep)\<close> for a separator of one character: never an empty list.\<close>

fun split_on :: "char \<Rightarrow> string \<Rightarrow> string list" where
  "split_on sep [] = [[]]"
| "split_on sep (c # cs) =
     (if c = sep then [] # split_on sep cs
      else (case split_on sep cs of
              [] \<Rightarrow> [[c]]
            | p # ps \<Rightarrow> (c # p) # ps))"

text \<open>\<open>sep.join(parts)\<close>.\<close>

fun join :: "string \<Rightarrow> string list \<Rightarrow> string" where
  "join sep [] = []"
| "join sep [p] = p"
| "join sep (p # q # ps) = p @ sep @ join sep (q # ps)"

text \<open>\<open>str(n)\<close> for a non-negative integer: its decimal digits.\<close>

definition digit_char :: "nat \<Rightarrow> char" where
  "digit_char d = char_of (48 + d)"

fun str_nat :: "nat \<Rightarrow> string" where
  "str_nat n = (if n < 10 then [digit_char n]
                else str_nat (n div 10) @ [digit_char (n mod 10)])"

declare str_nat.simps [simp del]

section \<open>generate\_sdk.py: names\<close>

text \<open>
  \<open>re.sub(r'([A-Z]+)([A-Z][a-z])', r'\1_\2', name)\<close>. At a position the greedy group
  \<open>[A-Z]+\<close> is tried from its longest length down to one character: \<open>acronym_match\<close>
  gives the length of the first group of the match that starts at the head of the string,
  when there is one. \<open>re.sub\<close> replaces the leftmost match, goes on after its end, and
  copies a character where no match starts.
\<close>

definition acronym_match :: "string \<Rightarrow> nat option" where
  "acronym_match s =
     find (\<lambda>n. list_all is_upper (take n s) \<and> n + 1 < length s
                \<and> is_upper (s ! n) \<and> is_lower (s ! (n + 1)))
          (rev [1..<length s])"

function sub_acronym :: "string \<Rightarrow> string" where
  "sub_acronym s =
     (if s = [] then []
      else (case acronym_match s of
              Some n \<Rightarrow> take n s @ ''_'' @ [s ! n, s ! (n + 1)] @ sub_acronym (drop (n + 2) s)
            | None \<Rightarrow> hd s # sub_acronym (tl s)))"
  by pat_completeness auto
termination
  by (relation "measure length") auto

declare sub_acronym.simps [simp del]

text \<open>\<open>re.sub(r'([a-z\d])([A-Z])', r'\1_\2', s)\<close>: a match is two characters long.\<close>

fun sub_camel :: "string \<Rightarrow> string" where
  "sub_camel (a # b # cs) =
     (if (is_lower a \<or> is_digit a) \<and> is_upper b
      then a # CHR ''_'' # b # sub_camel cs
      else a # sub_camel (b # cs))"
| "sub_camel cs = cs"

text \<open>\<open>s.replace('-', '_').replace(' ', '_')\<close>.\<close>

definition replace_char :: "char \<Rightarrow> char \<Rightarrow> string \<Rightarrow> string" where
  "replace_char a b s = map (\<lambda>c. if c = a then b else c) s"

text \<open>\<open>re.sub(r'_+', '_', s)\<close>: every run of underscores becomes one underscore.\<close>

function sub_underscores :: "string \<Rightarrow> string" where
  "sub_underscores [] = []"
| "sub_underscores (c # cs) =
     (if c = CHR ''_'' then CHR ''_'' # sub_underscores (dropWhile (\<lambda>d. d = CHR ''_'') cs)
      else c # sub_underscores cs)"
  by pat_completeness auto
termination
  by (relation "measure length") (auto simp: less_Suc_eq_le length_dropWhile_le)

text \<open>
  \<open>keyword.kwlist\<close> of the standard library (CPython 3.10 and later), which
  \<open>keyword.iskeyword\<close> tests membership in.
\<close>

definition kwlist :: "string list" where
  "kwlist = [''False'', ''None'', ''True'', ''and'', ''as'', ''assert'', ''async'',
     ''await'', ''break'', ''class'', ''continue'', ''def'', ''del'', ''elif'', ''else'',
     ''except'', ''finally'', ''for'', ''from'', ''global'', ''if'', ''import'', ''in'',
     ''is'', ''lambda'', ''nonlocal'', ''not'', ''or'', ''pass'', ''raise'', ''return'',
     ''try'', ''while'', ''with'', ''yield'']"

definition iskeyword :: "string \<Rightarrow> bool" where
  "iskeyword s = (s \<in> set kwlist)"

definition to_snake :: "string \<Rightarrow> string" where
  "to_snake name =
     (let s = sub_acronym name;
          s = sub_camel s;
          s = replace_char CHR '' '' CHR ''_'' (replace_char CHR ''-'' CHR ''_'' s);
          s = strip_with (\<lambda>c. c = CHR ''_'') (lower (sub_underscores s))
      in if iskeyword s then s @ ''_'' else s)"


text \<open>\<open>_sanitise_module_name\<close>.\<close>

definition sanitise_module_name :: "string \<Rightarrow> string" where
  "sanitise_module_name tag =
     (let name = to_snake tag
      in if name \<in> set [''auth'', ''help'', ''type'', ''input'', ''filter'', ''id'', ''list'',
                          ''set'', ''map'', ''hash'', ''format'', ''open'', ''import'']
         then name @ ''_api'' else name)"

text \<open>\<open>_path_to_method_name\<close>; \<open>re.sub(r'[{}]', '', p)\<close> removes the braces of \<open>p\<close>.\<close>

definition is_slash :: "char \<Rightarrow> bool" where
  "is_slash c = (c = CHR ''/'')"

definition path_to_method_name :: "string \<Rightarrow> string \<Rightarrow> string" where
  "path_to_method_name method path =
     (let parts = [lower method] @
            map (filter (\<lambda>c. c \<noteq> CHR ''{'' \<and> c \<noteq> CHR ''}''))
                (split_on CHR ''/'' (strip_with is_slash path));
          joined = join ''_'' (filter (\<lambda>p. p \<noteq> []) parts)
      in to_snake joined)"

subsection \<open>Decimal numerals are read back\<close>

definition nat_of_digits :: "string \<Rightarrow> nat" where
  "nat_of_digits s = foldl (\<lambda>a c. 10 * a + ((of_char c :: nat) - 48)) 0 s"

lemma of_char_digit_char: "d < 10 \<Longrightarrow> (of_char (digit_char d) :: nat) = 48 + d"
  by (simp add: digit_char_def)

lemma nat_of_digits_str_nat: "nat_of_digits (str_nat n) = n"
proof (induction n rule: str_nat.induct)
  case (1 n)
  show ?case
  proof (cases "n < 10")
    case True
    then show ?thesis
      by (simp add: str_nat.simps [of n] nat_of_digits_def of_char_digit_char)
  next
    case False
    have "nat_of_digits (str_nat n) =
            10 * nat_of_digits (str_nat (n div 10)) + ((of_char (digit_char (n mod 10)) :: nat) - 48)"
      using False by (simp add: str_nat.simps [of n] nat_of_digits_def)
    also have "\<dots> = 10 * (n div 10) + n mod 10"
      using False "1.IH" by (simp add: of_char_digit_char)
    finally show ?thesis by simp
  qed
qed

lemma str_nat_inject: "str_nat m = str_nat n \<Longrightarrow> m = n"
  by (metis nat_of_digits_str_nat)

subsection \<open>The loop that makes a method name unique\<close>

text \<open>
  The name the loop tries for a counter: \<open>f'{original}_{counter}'\<close>.
\<close>

definition suffixed :: "string \<Rightarrow> nat \<Rightarrow> string" where
  "suffixed original counter = original @ ''_'' @ str_nat counter"

lemma suffixed_inject: "suffixed b j = suffixed b k \<Longrightarrow> j = k"
  by (simp add: suffixed_def str_nat_inject)

lemma finite_suffixed_seen: "finite {k. suffixed b k \<in> set seen}"
proof -
  have "inj (suffixed b)"
    by (rule injI) (rule suffixed_inject)
  then have "finite (suffixed b -` set seen)"
    by (rule finite_vimageI [OF finite_set])
  then show ?thesis
    by (simp add: vimage_def)
qed

text \<open>
  \<^verbatim>\<open>
  while func_name in seen_names:
      func_name = f'{original}_{counter}'
      counter += 1
  \<close>
  with the names seen so far as a list. The loop ends: the names it tries differ from
  each other, and only finitely many names have been seen.
\<close>

function dedup_loop :: "string \<Rightarrow> string list \<Rightarrow> string \<Rightarrow> nat \<Rightarrow> string" where
  "dedup_loop original seen func_name counter =
     (if func_name \<in> set seen
      then dedup_loop original seen (suffixed original counter) (counter + 1)
      else func_name)"
  by pat_completeness auto
termination
proof (relation "measure (\<lambda>(original, seen, func_name, counter).
          card {k. counter \<le> k \<and> suffixed original k \<in> set seen}
          + (if func_name \<in> set seen then 1 else 0))")
  show "wf (measure (\<lambda>(original, seen, func_name, counter).
          card {k. counter \<le> k \<and> suffixed original k \<in> set seen}
          + (if func_name \<in> set seen then 1 else 0)))"
    by simp
next
  fix original :: string and seen :: "string list" and func_name :: string and counter :: nat
  assume "func_name \<in> set seen"
  let ?A = "{k. counter \<le> k \<and> suffixed original k \<in> set seen}"
  let ?B = "{k. counter + 1 \<le> k \<and> suffixed original k \<in> set seen}"
  have fin: "finite ?A"
    by (rule finite_subset [OF _ finite_suffixed_seen [of original seen]]) auto
  have "card ?B + (if suffixed original counter \<in> set seen then 1 else 0) = card ?A"
  proof (cases "suffixed original counter \<in> set seen")
    case True
    have "?A = insert counter ?B"
      using True by (auto simp: le_less Suc_le_eq)
    moreover have "counter \<notin> ?B" by simp
    moreover have "finite ?B"
      by (rule finite_subset [OF _ fin]) auto
    ultimately show ?thesis
      using True by simp
  next
    case False
    have "?A = ?B"
      using False by (auto simp: Suc_le_eq le_less)
    then show ?thesis
      using False by simp
  qed
  then show "((original, seen, suffixed original counter, counter + 1),
              (original, seen, func_name, counter))
          \<in> measure (\<lambda>(original, seen, func_name, counter).
              card {k. counter \<le> k \<and> suffixed original k \<in> set seen}
              + (if func_name \<in> set seen then 1 else 0))"
    using \<open>func_name \<in> set seen\<close> by simp
qed

declare dedup_loop.simps [simp del]


section \<open>The data both programs work on\<close>

text \<open>
  A value returned by \<open>json.loads\<close>. A dict is a list of its items in insertion order.
\<close>

datatype pyval =
    PNone
  | PBool bool
  | PInt int
  | PFloat real
  | PStr string
  | PList "pyval list"
  | PDict "(string \<times> pyval) list"

text \<open>
  The schema dicts that \<open>_json_to_schema\<close> builds: \<open>{}\<close>, \<open>{'type': t}\<close>,
  \<open>{'type': 'array', 'items': s}\<close> and \<open>{'type': 'object', 'properties': ps}\<close>.
\<close>

datatype schema =
    SEmpty
  | SType string
  | SArray schema
  | SObject "(string \<times> schema) list"

text \<open>A parameter dict: \<open>name\<close>, \<open>in\<close>, \<open>description\<close>, \<open>required\<close>, \<open>schema: {type}\<close>.\<close>

record param =
  p_name :: string
  p_in :: string
  p_description :: string
  p_required :: bool
  p_type :: string

record body_prop =
  bp_type :: string
  bp_description :: string

text \<open>\<open>{'type': 'object', 'properties': \<dots>}\<close>, with the key \<open>required\<close> when it is set.\<close>

record body_schema =
  bs_properties :: "(string \<times> body_prop) list"
  bs_required :: "string list option"

text \<open>\<open>{'required': True, 'content': {mime: {'schema': schema}}}\<close>.\<close>

record request_body =
  rb_required :: bool
  rb_mime :: string
  rb_schema :: body_schema

text \<open>
  A response dict: \<open>description\<close>, and \<open>content: {'application/json': {'schema': s}}\<close>
  when the key \<open>content\<close> is set.
\<close>

record response =
  r_description :: string
  r_content :: "schema option"

text \<open>
  An operation object of the OpenAPI document. A field is \<open>None\<close> when the dict has
  no such key; \<open>o_other\<close> names the further keys, which neither program reads.
\<close>

record operation =
  o_summary :: "string option"
  o_description :: "string option"
  o_operationId :: "string option"
  o_tags :: "string list option"
  o_responses :: "(string \<times> response) list option"
  o_parameters :: "param list option"
  o_requestBody :: "request_body option"
  o_other :: "string list"



text \<open>
  A path item: the key \<open>parameters\<close> when present, and the other keys with the operation
  objects under them.
\<close>

record path_item =
  pi_parameters :: "param list option"
  pi_operations :: "(string \<times> operation) list"

text \<open>The document: \<open>openapi\<close>, the title and version of \<open>info\<close>, and \<open>paths\<close> in insertion order.\<close>

record openapi_doc =
  d_openapi :: string
  d_title :: string
  d_version :: string
  d_paths :: "(string \<times> path_item) list"


section \<open>generate\_openapi.py\<close>

subsection \<open>What is read from a page\<close>

text \<open>
  A table as \<open>_TableParser\<close> collects it: its caption and its rows of cell texts.
\<close>

record table =
  caption :: string
  rows :: "string list list"

text \<open>
  What \<open>_parse_html_file\<close> works on once the library calls have read the page:
  the two groups of the title match (\<open>None\<close> when \<open>re.search\<close> finds no title), the
  short description as \<open>html.unescape(\<dots>).strip()\<close> gives it (empty when there is
  none), the tables of \<open>_TableParser\<close>, and for each \<open>pre\<close> block in document order the
  value \<open>json.loads\<close> returns for its cleaned text (\<open>None\<close> when it raises).
\<close>

record html_doc =
  h_title :: "(string \<times> string) option"
  h_description :: string
  h_tables :: "table list"
  h_pre_json :: "pyval option list"

text \<open>The dict \<open>_parse_html_file\<close> returns.\<close>

record parsed_file =
  pf_method :: string
  pf_api_path :: string
  pf_summary :: string
  pf_description :: string
  pf_parameters :: "param list"
  pf_request_body :: "request_body option"
  pf_responses :: "(string \<times> response) list"

subsection \<open>Types\<close>

definition TYPE_MAP :: "(string \<times> string) list" where
  "TYPE_MAP = [(''string'', ''string''), (''number'', ''number''),
     (''number (integer)'', ''integer''), (''integer'', ''integer''), (''int'', ''integer''),
     (''long'', ''integer''), (''boolean'', ''boolean''), (''bool'', ''boolean''),
     (''array'', ''array''), (''array<object>'', ''array''), (''object'', ''object'')]"

definition map_type :: "string \<Rightarrow> string" where
  "map_type raw = (case map_of TYPE_MAP (lower raw) of Some t \<Rightarrow> t | None \<Rightarrow> ''string'')"

subsection \<open>\<open>_json_to_schema\<close>\<close>

text \<open>\<open>isinstance(value, t)\<close>; a \<open>bool\<close> is an \<open>int\<close> as well.\<close>

definition isinstance_bool :: "pyval \<Rightarrow> bool" where
  "isinstance_bool v = (case v of PBool _ \<Rightarrow> True | _ \<Rightarrow> False)"

definition isinstance_int :: "pyval \<Rightarrow> bool" where
  "isinstance_int v = (case v of PBool _ \<Rightarrow> True | PInt _ \<Rightarrow> True | _ \<Rightarrow> False)"

definition isinstance_float :: "pyval \<Rightarrow> bool" where
  "isinstance_float v = (case v of PFloat _ \<Rightarrow> True | _ \<Rightarrow> False)"

definition isinstance_str :: "pyval \<Rightarrow> bool" where
  "isinstance_str v = (case v of PStr _ \<Rightarrow> True | _ \<Rightarrow> False)"

definition isinstance_list :: "pyval \<Rightarrow> bool" where
  "isinstance_list v = (case v of PList _ \<Rightarrow> True | _ \<Rightarrow> False)"

definition isinstance_dict :: "pyval \<Rightarrow> bool" where
  "isinstance_dict v = (case v of PDict _ \<Rightarrow> True | _ \<Rightarrow> False)"

definition list_elems :: "pyval \<Rightarrow> pyval list" where
  "list_elems v = (case v of PList xs \<Rightarrow> xs | _ \<Rightarrow> [])"

definition dict_items :: "pyval \<Rightarrow> (string \<times> pyval) list" where
  "dict_items v = (case v of PDict kvs \<Rightarrow> kvs | _ \<Rightarrow> [])"

lemma size_list_elems: "x \<in> set (list_elems v) \<Longrightarrow> size x < size v"
  by (cases v) (auto simp: list_elems_def less_Suc_eq_le size_list_estimation')

lemma size_dict_items: "(k, x) \<in> set (dict_items v) \<Longrightarrow> size x < size v"
proof (cases v)
  case (PDict kvs)
  assume "(k, x) \<in> set (dict_items v)"
  then have "(k, x) \<in> set kvs"
    using PDict by (simp add: dict_items_def)
  then have "size_prod (\<lambda>_. 0) size (k, x) \<le> size_list (size_prod (\<lambda>_. 0) size) kvs"
    by (rule size_list_estimation') simp
  then show ?thesis
    using PDict by simp
qed (simp_all add: dict_items_def)

function json_to_schema :: "pyval \<Rightarrow> schema" where
  "json_to_schema v =
     (if isinstance_bool v then SType ''boolean''
      else if isinstance_int v then SType ''integer''
      else if isinstance_float v then SType ''number''
      else if isinstance_str v then SType ''string''
      else if isinstance_list v then
        (if list_elems v \<noteq> [] then SArray (json_to_schema (hd (list_elems v)))
         else SArray SEmpty)
      else if isinstance_dict v then
        SObject (map (\<lambda>kv. (fst kv, json_to_schema (snd kv))) (dict_items v))
      else SEmpty)"
  by pat_completeness auto
termination
proof (relation "measure size")
  show "wf (measure (size :: pyval \<Rightarrow> nat))" by simp
next
  fix v :: pyval
  assume "list_elems v \<noteq> []"
  then have "hd (list_elems v) \<in> set (list_elems v)" by simp
  then show "(hd (list_elems v), v) \<in> measure size"
    by (simp add: size_list_elems)
next
  fix v :: pyval and kv :: "string \<times> pyval"
  assume "kv \<in> set (dict_items v)"
  then have "(fst kv, snd kv) \<in> set (dict_items v)" by simp
  then have "size (snd kv) < size v" by (rule size_dict_items)
  then show "(snd kv, v) \<in> measure size" by simp
qed

declare json_to_schema.simps [simp del]


subsection \<open>\<open>_parse_html_file\<close>\<close>

text \<open>
  The loop over the tables: a caption is matched lower-cased, the first row of a
  matching table is left out, and a later matching table replaces an earlier one. The
  state is \<open>(params_rows, body_rows, response_rows)\<close>.
\<close>

type_synonym table_rows = "string list list \<times> string list list \<times> string list list"

definition classify_table :: "table_rows \<Rightarrow> table \<Rightarrow> table_rows" where
  "classify_table st t =
     (case st of (params_rows, body_rows, response_rows) \<Rightarrow>
        (let cap = lower (caption t); rs = rows t
         in if contains cap ''request parameter details''
              then ((if rs \<noteq> [] then tl rs else []), body_rows, response_rows)
            else if contains cap ''request body details''
              then (params_rows, (if rs \<noteq> [] then tl rs else []), response_rows)
            else if contains cap ''response codes''
              then (params_rows, body_rows, (if rs \<noteq> [] then tl rs else []))
            else (params_rows, body_rows, response_rows)))"

definition classify_tables :: "table list \<Rightarrow> table_rows" where
  "classify_tables ts = foldl classify_table ([], [], []) ts"

text \<open>One row of the parameter table: \<open>None\<close> where the loop body says \<open>continue\<close>.\<close>

definition param_of_row :: "string list \<Rightarrow> param option" where
  "param_of_row row =
     (if length row < 6 then None
      else (let name = strip (row ! 0);
                location = lower (strip (row ! 1));
                optionality = row ! 2;
                data_type = row ! 3;
                desc_text = row ! 5
            in if location \<notin> set [''query'', ''path'', ''header''] then None
               else (let required = (lower (strip optionality) = ''required'')
                     in Some \<lparr>p_name = name, p_in = location,
                              p_description = strip desc_text,
                              p_required = (required \<or> location = ''path''),
                              p_type = map_type (strip data_type)\<rparr>)))"

definition parse_parameters :: "string list list \<Rightarrow> param list" where
  "parse_parameters params_rows = List.map_filter param_of_row params_rows"

text \<open>
  One row of the body table, on the state \<open>(properties, required_fields)\<close>:
  \<open>properties[b_name] = prop\<close> on a dict, \<open>required_fields.append(b_name)\<close> on a list.
\<close>

definition body_row_step ::
  "(string \<times> body_prop) list \<times> string list \<Rightarrow> string list
     \<Rightarrow> (string \<times> body_prop) list \<times> string list" where
  "body_row_step st row =
     (case st of (properties, required_fields) \<Rightarrow>
        if length row < 4 then (properties, required_fields)
        else (let b_name = strip (row ! 0); b_type = row ! 1; b_desc = row ! 3
              in if b_name = [] then (properties, required_fields)
                 else (let prop = \<lparr>bp_type = map_type (strip b_type),
                                    bp_description = strip b_desc\<rparr>;
                           properties = AList.update b_name prop properties
                       in if contains (lower b_desc) ''required''
                             \<and> startswith (lower (strip b_desc)) ''required''
                          then (properties, required_fields @ [b_name])
                          else (properties, required_fields))))"

definition parse_request_body :: "string list list \<Rightarrow> request_body option" where
  "parse_request_body body_rows =
     (if body_rows = [] then None
      else (case foldl body_row_step ([], []) body_rows of (properties, required_fields) \<Rightarrow>
        (let schema = \<lparr>bs_properties = properties,
                        bs_required = (if required_fields \<noteq> [] then Some required_fields
                                       else None)\<rparr>;
             content_types = map (\<lambda>row. strip (row ! 2)) (filter (\<lambda>row. length row > 2) body_rows);
             mime = (if content_types \<noteq> [] then hd content_types else ''application/json'')
         in Some \<lparr>rb_required = True, rb_mime = mime, rb_schema = schema\<rparr>)))"

text \<open>One row of the response table, on the dict \<open>responses\<close>.\<close>

definition response_row_step ::
  "(string \<times> response) list \<Rightarrow> string list \<Rightarrow> (string \<times> response) list" where
  "response_row_step responses row =
     (if row = [] then responses
      else (let code = strip (row ! 0);
                desc_text = (if length row > 2 then strip (row ! 2)
                             else if length row > 1 then strip (row ! 1) else [])
            in if \<not> isdigit code then responses
               else AList.update code
                      \<lparr>r_description = (if desc_text \<noteq> [] then desc_text else ''No description''),
                       r_content = None\<rparr> responses))"

definition parse_responses :: "string list list \<Rightarrow> (string \<times> response) list" where
  "parse_responses response_rows =
     (let responses = foldl response_row_step [] response_rows
      in if responses = []
         then AList.update ''200'' \<lparr>r_description = ''Success'', r_content = None\<rparr> responses
         else responses)"

text \<open>
  The loop over the \<open>pre\<close> blocks stops at the first one that \<open>json.loads\<close> accepts;
  \<open>response_sample\<close> is \<open>None\<close> when there is none, and also when that block is \<open>null\<close>.
\<close>

definition first_sample :: "pyval option list \<Rightarrow> pyval" where
  "first_sample pres = (case List.find (\<lambda>r. r \<noteq> None) pres of Some (Some v) \<Rightarrow> v | _ \<Rightarrow> PNone)"

text \<open>\<open>responses[ok_code]['content'] = {'application/json': {'schema': schema}}\<close>.\<close>

definition attach_schema ::
  "string \<Rightarrow> pyval \<Rightarrow> (string \<times> response) list \<Rightarrow> (string \<times> response) list" where
  "attach_schema method response_sample responses =
     (let ok_code = (if method = ''POST'' \<and> map_of responses ''201'' \<noteq> None
                     then ''201'' else ''200'')
      in if map_of responses ok_code \<noteq> None
         then (if response_sample \<noteq> PNone
               then AList.map_entry ok_code
                      (\<lambda>r. r\<lparr>r_content := Some (json_to_schema response_sample)\<rparr>) responses
               else AList.map_entry ok_code
                      (\<lambda>r. r\<lparr>r_content := Some (SType ''object'')\<rparr>) responses)
         else responses)"

definition parse_html_file :: "html_doc \<Rightarrow> parsed_file option" where
  "parse_html_file doc =
     (case h_title doc of
        None \<Rightarrow> None
      | Some (group1, group2) \<Rightarrow>
          (let method = upper group1;
               api_path = strip group2;
               description = h_description doc
           in (case classify_tables (h_tables doc) of (params_rows, body_rows, response_rows) \<Rightarrow>
             (let parameters = parse_parameters params_rows;
                  request_body = parse_request_body body_rows;
                  responses = parse_responses response_rows;
                  response_sample = first_sample (h_pre_json doc);
                  responses = attach_schema method response_sample responses
              in Some \<lparr>pf_method = method, pf_api_path = api_path,
                       pf_summary = description, pf_description = description,
                       pf_parameters = parameters, pf_request_body = request_body,
                       pf_responses = responses\<rparr>))))"

subsection \<open>\<open>build_openapi\<close>\<close>

definition serialize_response :: "response \<Rightarrow> response" where
  "serialize_response resp = \<lparr>r_description = r_description resp, r_content = r_content resp\<rparr>"

definition is_brace :: "char \<Rightarrow> bool" where
  "is_brace c = (c = CHR ''{'' \<or> c = CHR ''}'')"

definition cap :: "string \<Rightarrow> string" where
  "cap s = (if s \<noteq> [] then upper [hd s] @ tl s else [])"

definition make_operation_id :: "string \<Rightarrow> string \<Rightarrow> string" where
  "make_operation_id method api_path =
     (let parts = [method] @ map (strip_with is_brace)
                                 (split_on CHR ''/'' (strip_with is_slash api_path))
      in hd parts @ concat (map cap (tl parts)))"

definition extract_tag :: "string \<Rightarrow> string" where
  "extract_tag api_path =
     (let parts = split_on CHR ''/'' (strip_with is_slash api_path)
      in if parts \<noteq> [] then hd parts else ''default'')"

definition operation_of :: "parsed_file \<Rightarrow> operation" where
  "operation_of data =
     (let method = lower (pf_method data); api_path = pf_api_path data
      in \<lparr>o_summary = Some (pf_summary data),
          o_description = Some (pf_description data),
          o_operationId = Some (make_operation_id method api_path),
          o_tags = Some [extract_tag api_path],
          o_responses = Some (map (\<lambda>(code, resp). (code, serialize_response resp))
                                  (pf_responses data)),
          o_parameters = (if pf_parameters data \<noteq> [] then Some (pf_parameters data) else None),
          o_requestBody = pf_request_body data,
          o_other = []\<rparr>)"

text \<open>
  The body of the loop over the files, on \<open>spec['paths']\<close>; a file without a title
  is skipped.
\<close>

definition add_file :: "(string \<times> path_item) list \<Rightarrow> html_doc \<Rightarrow> (string \<times> path_item) list" where
  "add_file paths doc =
     (case parse_html_file doc of
        None \<Rightarrow> paths
      | Some data \<Rightarrow>
          (let method = lower (pf_method data);
               api_path = pf_api_path data;
               paths = (if map_of paths api_path = None
                        then AList.update api_path
                               \<lparr>pi_parameters = None, pi_operations = []\<rparr> paths
                        else paths);
               operation = operation_of data
           in AList.map_entry api_path
                (\<lambda>item. item\<lparr>pi_operations := AList.update method operation (pi_operations item)\<rparr>)
                paths))"

text \<open>\<open>build_openapi\<close> on the pages in the order of \<open>sorted(repo_dir.glob(\<dots>))\<close>.\<close>

definition build_openapi :: "html_doc list \<Rightarrow> openapi_doc" where
  "build_openapi html_files =
     \<lparr>d_openapi = ''3.0.0'', d_title = ''IBM QRadar REST API'', d_version = ''26.0'',
      d_paths = foldl add_file [] html_files\<rparr>"


section \<open>generate\_sdk.py\<close>

subsection \<open>\<open>_collect_operations\<close>\<close>

text \<open>An operation dict of \<open>_collect_operations\<close>.\<close>

record sdk_op =
  so_method :: string
  so_path :: string
  so_operation_id :: string
  so_summary :: string
  so_parameters :: "param list"
  so_request_body :: "request_body option"
  so_response_schema :: schema









subsection \<open>\<open>_generate_api_module\<close>\<close>

text \<open>
  A method of the generated class: its name, the parts of its signature
  (\<open>sig_parts + kw_args\<close>), its docstring and the session method it calls.
\<close>

record gen_method =
  gm_name :: string
  gm_sig :: "string list"
  gm_doc :: string
  gm_verb :: string

definition path_params_of :: "param list \<Rightarrow> param list" where
  "path_params_of parameters = filter (\<lambda>p. p_in p = ''path'') parameters"

definition optional_params_of :: "param list \<Rightarrow> param list" where
  "optional_params_of parameters = filter (\<lambda>p. p_in p \<in> set [''query'', ''header'']) parameters"

text \<open>The name a query or header parameter is bound to.\<close>

definition kw_name :: "param \<Rightarrow> string" where
  "kw_name p =
     (let pname = to_snake (p_name p)
      in if pname \<in> set [''range''] then ''range_header'' else pname)"

text \<open>
  The names bound in the signature after \<open>self\<close>: the path parameters, \<open>body\<close> when
  there is a request body, the query and header parameters, and \<open>kwargs\<close>.
\<close>

definition path_bindings :: "param list \<Rightarrow> string list" where
  "path_bindings parameters = map (\<lambda>p. to_snake (p_name p)) (path_params_of parameters)"

definition kw_bindings :: "param list \<Rightarrow> string list" where
  "kw_bindings parameters = map kw_name (optional_params_of parameters)"

definition sig_parts :: "param list \<Rightarrow> string list" where
  "sig_parts parameters = [''self''] @ path_bindings parameters"

definition kw_args :: "param list \<Rightarrow> request_body option \<Rightarrow> string list" where
  "kw_args parameters request_body =
     (if request_body \<noteq> None then [''body: Optional[Any] = None''] else []) @
     map (\<lambda>pname. pname @ '': Optional[Any] = None'') (kw_bindings parameters) @
     [''**kwargs: Any'']"

definition gen_one :: "string list \<Rightarrow> sdk_op \<Rightarrow> gen_method" where
  "gen_one seen_names op =
     (let method = so_method op;
          path = so_path op;
          summary = strip (so_summary op);
          parameters = so_parameters op;
          request_body = so_request_body op;
          original = path_to_method_name method path;
          func_name = dedup_loop original seen_names original 2
      in \<lparr>gm_name = func_name,
          gm_sig = sig_parts parameters @ kw_args parameters request_body,
          gm_doc = (if summary \<noteq> [] then summary
                    else ''Call '' @ upper method @ '' '' @ path),
          gm_verb = method\<rparr>)"

text \<open>The loop over the operations, with \<open>seen_names\<close>.\<close>

fun gen_methods :: "string list \<Rightarrow> sdk_op list \<Rightarrow> gen_method list" where
  "gen_methods seen_names [] = []"
| "gen_methods seen_names (op # ops) =
     (let m = gen_one seen_names op
      in m # gen_methods (gm_name m # seen_names) ops)"

definition generate_api_module :: "string \<Rightarrow> sdk_op list \<Rightarrow> gen_method list" where
  "generate_api_module tag operations = gen_methods [] operations"


text \<open>The name \<open>_path_to_method_name\<close> gives an operation, and the names of a module's methods.\<close>

definition base_name :: "sdk_op \<Rightarrow> string" where
  "base_name op = path_to_method_name (so_method op) (so_path op)"

definition method_names :: "string \<Rightarrow> sdk_op list \<Rightarrow> string list" where
  "method_names tag operations = map gm_name (generate_api_module tag operations)"

text \<open>
  The rows of the response table that the loop over the tables leaves, and the schema
  attached to the response of the successful code: inferred from the sample, or the bare
  object when there is no sample.
\<close>

definition response_rows_of :: "html_doc \<Rightarrow> string list list" where
  "response_rows_of doc = snd (snd (classify_tables (h_tables doc)))"

definition inferred_schema :: "html_doc \<Rightarrow> schema" where
  "inferred_schema doc =
     (if first_sample (h_pre_json doc) \<noteq> PNone then json_to_schema (first_sample (h_pre_json doc))
      else SType ''object'')"

text \<open>
  A row of the body table marks its field as required, in the words of the
  specification: it has at least four cells and a name, and its description cell,
  lower-cased and stripped, starts with \<open>required\<close>.
\<close>

definition marks_required :: "string list \<Rightarrow> bool" where
  "marks_required row =
     (4 \<le> length row \<and> strip (row ! 0) \<noteq> [] \<and> startswith (strip (lower (row ! 3))) ''required'')"

text \<open>
  The files that \<open>build_openapi\<close> does not skip, the operation the document has under
  a path and a method, and the files that give this path and method.
\<close>

definition parsed_files :: "html_doc list \<Rightarrow> parsed_file list" where
  "parsed_files html_files = List.map_filter parse_html_file html_files"

definition lookup_operation :: "(string \<times> path_item) list \<Rightarrow> string \<Rightarrow> string \<Rightarrow> operation option" where
  "lookup_operation paths path method =
     (case map_of paths path of None \<Rightarrow> None | Some item \<Rightarrow> map_of (pi_operations item) method)"

definition same_operation :: "string \<Rightarrow> string \<Rightarrow> parsed_file \<Rightarrow> bool" where
  "same_operation path method data = (pf_api_path data = path \<and> lower (pf_method data) = method)"

text \<open>
  The rows of the parameter table that give a parameter, and the parameters that
  \<open>_generate_api_module\<close> binds in a signature.
\<close>

definition param_row_ok :: "string list \<Rightarrow> bool" where
  "param_row_ok row = (6 \<le> length row \<and> lower (strip (row ! 1)) \<in> set [''query'', ''path'', ''header''])"

definition table_param :: "param \<Rightarrow> bool" where
  "table_param p = (p_in p \<in> set [''path'', ''query'', ''header''])"






section \<open>The schema inferencer as the specification words it\<close>

text \<open>
  One equation for each kind of value: bool, int, float, str, the empty and the non-empty
  list, dict, and any other value.
\<close>

fun schema_ref :: "pyval \<Rightarrow> schema" where
  "schema_ref (PBool b) = SType ''boolean''"
| "schema_ref (PInt i) = SType ''integer''"
| "schema_ref (PFloat x) = SType ''number''"
| "schema_ref (PStr s) = SType ''string''"
| "schema_ref (PList []) = SArray SEmpty"
| "schema_ref (PList (x # xs)) = SArray (schema_ref x)"
| "schema_ref (PDict kvs) = SObject (map (\<lambda>(k, v). (k, schema_ref v)) kvs)"
| "schema_ref PNone = SEmpty"

section \<open>Lemmas\<close>

subsection \<open>Keywords\<close>

lemma keyword_no_underscore: "iskeyword s \<Longrightarrow> CHR ''_'' \<notin> set s"
  by (auto simp: iskeyword_def kwlist_def)

lemma to_snake_not_keyword: "\<not> iskeyword (to_snake name)"
  unfolding to_snake_def Let_def
  by (auto dest: keyword_no_underscore)

lemma suffixed_not_keyword: "\<not> iskeyword (suffixed b k)"
  by (auto simp: suffixed_def dest: keyword_no_underscore)

subsection \<open>The loop on method names\<close>

lemma dedup_loop_not_seen: "dedup_loop b seen f c \<notin> set seen"
  by (induction b seen f c rule: dedup_loop.induct) (simp add: dedup_loop.simps)

lemma dedup_loop_fresh: "f \<notin> set seen \<Longrightarrow> dedup_loop b seen f c = f"
  by (simp add: dedup_loop.simps)

lemma dedup_loop_suffix:
  "f \<in> set seen \<Longrightarrow>
     \<exists>k\<ge>c. dedup_loop b seen f c = suffixed b k \<and> (\<forall>j. c \<le> j \<and> j < k \<longrightarrow> suffixed b j \<in> set seen)"
proof (induction b seen f c rule: dedup_loop.induct)
  case (1 original seen func_name counter)
  have step: "dedup_loop original seen func_name counter
        = dedup_loop original seen (suffixed original counter) (counter + 1)"
    using "1.prems" by (simp add: dedup_loop.simps [of original seen func_name counter])
  show ?case
  proof (cases "suffixed original counter \<in> set seen")
    case False
    then have "dedup_loop original seen func_name counter = suffixed original counter"
      using step by (simp add: dedup_loop_fresh)
    then show ?thesis by auto
  next
    case True
    from "1.IH" [OF "1.prems" True] obtain k where k: "counter + 1 \<le> k"
      "dedup_loop original seen (suffixed original counter) (counter + 1) = suffixed original k"
      "\<forall>j. counter + 1 \<le> j \<and> j < k \<longrightarrow> suffixed original j \<in> set seen"
      by blast
    have "\<forall>j. counter \<le> j \<and> j < k \<longrightarrow> suffixed original j \<in> set seen"
    proof (intro allI impI)
      fix j assume "counter \<le> j \<and> j < k"
      then consider "j = counter" | "counter + 1 \<le> j \<and> j < k" by linarith
      then show "suffixed original j \<in> set seen"
        using True k(3) by cases auto
    qed
    then show ?thesis
      using k step by (intro exI [of _ k]) simp
  qed
qed

lemma gm_name_gen_one: "gm_name (gen_one seen op) = dedup_loop (base_name op) seen (base_name op) 2"
  by (simp add: gen_one_def base_name_def Let_def)

lemma length_gen_methods: "length (gen_methods seen ops) = length ops"
  by (induction ops arbitrary: seen) (simp_all add: Let_def)

lemma gen_methods_names_fresh:
  "distinct (map gm_name (gen_methods seen ops)) \<and> set (map gm_name (gen_methods seen ops)) \<inter> set seen = {}"
proof (induction ops arbitrary: seen)
  case Nil
  show ?case by simp
next
  case (Cons op ops)
  let ?n = "gm_name (gen_one seen op)"
  have "?n \<notin> set seen"
    by (simp add: gm_name_gen_one dedup_loop_not_seen)
  moreover note Cons.IH [of "?n # seen"]
  ultimately show ?case
    by (auto simp: Let_def)
qed

lemma gen_methods_name_at:
  "i < length ops \<Longrightarrow>
   (let prev = set (take i (map gm_name (gen_methods seen ops))) \<union> set seen;
        b = base_name (ops ! i);
        n = map gm_name (gen_methods seen ops) ! i
    in (b \<notin> prev \<longrightarrow> n = b) \<and>
       (b \<in> prev \<longrightarrow> (\<exists>k\<ge>2. n = suffixed b k \<and> (\<forall>j. 2 \<le> j \<and> j < k \<longrightarrow> suffixed b j \<in> prev))))"
proof (induction ops arbitrary: seen i)
  case Nil
  then show ?case by simp
next
  case (Cons op ops)
  let ?n = "gm_name (gen_one seen op)"
  show ?case
  proof (cases i)
    case 0
    then show ?thesis
      using dedup_loop_fresh [of "base_name op" seen "base_name op" 2]
        dedup_loop_suffix [of "base_name op" seen 2 "base_name op"]
      by (auto simp: Let_def gm_name_gen_one)
  next
    case (Suc i')
    then have "i' < length ops" using Cons.prems by simp
    from Cons.IH [OF this, of "?n # seen"] show ?thesis
      using Suc by (simp add: Let_def Un_commute insert_commute)
  qed
qed

lemma suffixed_neq_base: "suffixed b k \<noteq> b"
  by (simp add: suffixed_def)

lemma gen_methods_same_base:
  "\<forall>op\<in>set ops. base_name op = b \<Longrightarrow> 2 \<le> c \<Longrightarrow> set seen = insert b (suffixed b ` {2..<c}) \<Longrightarrow>
   map gm_name (gen_methods seen ops) = map (suffixed b) [c..<c + length ops]"
proof (induction ops arbitrary: seen c)
  case Nil
  show ?case by simp
next
  case (Cons op ops)
  have b: "base_name op = b" using Cons.prems(1) by simp
  have mem: "suffixed b j \<in> set seen \<longleftrightarrow> 2 \<le> j \<and> j < c" for j
    using Cons.prems(3) by (auto simp: suffixed_neq_base dest: suffixed_inject)
  have "b \<in> set seen" using Cons.prems(3) by simp
  from dedup_loop_suffix [OF this, of 2 b] obtain k where k: "2 \<le> k"
    "dedup_loop b seen b 2 = suffixed b k" "\<forall>j. 2 \<le> j \<and> j < k \<longrightarrow> suffixed b j \<in> set seen"
    by blast
  have "suffixed b k \<notin> set seen"
    using dedup_loop_not_seen [of b seen b 2] k(2) by simp
  then have "c \<le> k" using mem k(1) by auto
  moreover have "\<not> c < k"
    using k(3) mem [of c] Cons.prems(2) by auto
  ultimately have "k = c" by simp
  then have n: "gm_name (gen_one seen op) = suffixed b c"
    using k(2) b by (simp add: gm_name_gen_one)
  have "set (suffixed b c # seen) = insert b (suffixed b ` {2..<c + 1})"
    using Cons.prems(2,3) by (auto simp: less_Suc_eq)
  from Cons.IH [OF _ _ this] Cons.prems(1,2)
  have ih: "map gm_name (gen_methods (suffixed b c # seen) ops)
      = map (suffixed b) [Suc c..<c + length (op # ops)]"
    by simp
  have lt: "c < c + length (op # ops)" by simp
  have "map gm_name (gen_methods seen (op # ops))
      = suffixed b c # map gm_name (gen_methods (suffixed b c # seen) ops)"
    using n by (simp add: Let_def)
  also have "\<dots> = suffixed b c # map (suffixed b) [Suc c..<c + length (op # ops)]"
    by (simp only: ih)
  also have "\<dots> = map (suffixed b) (c # [Suc c..<c + length (op # ops)])"
    by (simp only: list.map)
  also have "\<dots> = map (suffixed b) [c..<c + length (op # ops)]"
    by (simp only: upt_conv_Cons [OF lt])
  finally show ?case .
qed

lemma method_names_same_base:
  assumes "\<forall>op\<in>set ops. base_name op = b" "ops \<noteq> []"
  shows "method_names tag ops = b # map (suffixed b) [2..<Suc (length ops)]"
proof -
  obtain op ops' where ops: "ops = op # ops'" using assms(2) by (cases ops) auto
  have n: "gm_name (gen_one [] op) = b"
    using assms(1) ops by (simp add: gm_name_gen_one dedup_loop_fresh)
  have "map gm_name (gen_methods [b] ops') = map (suffixed b) [2..<2 + length ops']"
    using assms(1) ops by (intro gen_methods_same_base) auto
  then show ?thesis
    using n ops by (simp add: method_names_def generate_api_module_def Let_def)
qed

lemma gen_methods_name_form:
  "n \<in> set (map gm_name (gen_methods seen ops)) \<Longrightarrow>
     \<exists>op\<in>set ops. n = base_name op \<or> (\<exists>k. n = suffixed (base_name op) k)"
proof (induction ops arbitrary: seen)
  case Nil
  then show ?case by simp
next
  case (Cons op ops)
  let ?m = "gm_name (gen_one seen op)"
  have head: "?m = base_name op \<or> (\<exists>k. ?m = suffixed (base_name op) k)"
  proof (cases "base_name op \<in> set seen")
    case True
    from dedup_loop_suffix [OF this, of 2 "base_name op"] show ?thesis
      by (auto simp: gm_name_gen_one)
  next
    case False
    then show ?thesis
      by (simp add: gm_name_gen_one dedup_loop_fresh)
  qed
  from Cons.prems have "n = ?m \<or> n \<in> set (map gm_name (gen_methods (?m # seen) ops))"
    by (auto simp: Let_def)
  then show ?case
  proof
    assume "n = ?m"
    then show ?thesis using head by auto
  next
    assume "n \<in> set (map gm_name (gen_methods (?m # seen) ops))"
    from Cons.IH [OF this] show ?thesis by auto
  qed
qed

subsection \<open>The response map\<close>

lemma map_entry_keys: "map fst (AList.map_entry k f al) = map fst al"
  by (induction al) auto

lemma response_row_step_no_content:
  "(\<forall>c r. map_of acc c = Some r \<longrightarrow> r_content r = None) \<Longrightarrow>
   map_of (response_row_step acc row) c = Some r \<Longrightarrow> r_content r = None"
  by (auto simp: response_row_step_def Let_def update_conv' split: if_splits)

lemma foldl_response_rows_no_content:
  "(\<forall>c r. map_of acc c = Some r \<longrightarrow> r_content r = None) \<Longrightarrow>
   map_of (foldl response_row_step acc rws) c = Some r \<Longrightarrow> r_content r = None"
proof (induction rws arbitrary: acc)
  case Nil
  then show ?case by simp
next
  case (Cons row rws)
  have "\<forall>c r. map_of (response_row_step acc row) c = Some r \<longrightarrow> r_content r = None"
    using Cons.prems(1) response_row_step_no_content by blast
  from Cons.IH [OF this] Cons.prems(2) show ?case by simp
qed

lemma parse_responses_no_content:
  "map_of (parse_responses rws) c = Some r \<Longrightarrow> r_content r = None"
  using foldl_response_rows_no_content [of "[]" rws c r]
  by (auto simp: parse_responses_def Let_def split: if_splits)

lemma attach_schema_post_both:
  assumes "map_of rs ''201'' \<noteq> None"
  shows "map_of (attach_schema ''POST'' sample rs) =
     (map_of rs)(''201'' := map_option (\<lambda>r. r\<lparr>r_content := Some (if sample \<noteq> PNone then json_to_schema sample else SType ''object'')\<rparr>) (map_of rs ''201''))"
  using assms by (auto simp: attach_schema_def Let_def map_of_map_entry fun_eq_iff split: option.splits)

lemma parse_html_file_responses:
  assumes "parse_html_file doc = Some data"
  shows "pf_responses data = attach_schema (pf_method data) (first_sample (h_pre_json doc)) (parse_responses (response_rows_of doc))"
  using assms
  by (auto simp: parse_html_file_def response_rows_of_def Let_def split: option.splits prod.splits)

lemma foldl_response_rows_skip:
  "\<forall>row\<in>set rws. row \<noteq> [] \<longrightarrow> \<not> isdigit (strip (row ! 0)) \<Longrightarrow>
   foldl response_row_step acc rws = acc"
  by (induction rws arbitrary: acc) (auto simp: response_row_step_def Let_def)

subsection \<open>The request body\<close>

lemma startswith_contains: "startswith s p \<Longrightarrow> contains s p"
  by (cases s) (auto simp: startswith_def)

lemma startswith_append: "startswith s p \<Longrightarrow> startswith (s @ b) p"
proof -
  assume h: "startswith s p"
  then have "length (take (length p) s) = length p"
    by (simp add: startswith_def)
  then have "length p \<le> length s" by simp
  then show ?thesis
    using h by (simp add: startswith_def)
qed

lemma contains_append_right: "contains s p \<Longrightarrow> contains (s @ b) p"
proof (induction s)
  case Nil
  then show ?case by (cases b) (auto simp: startswith_def)
next
  case (Cons c cs)
  then show ?case
    using startswith_append [of "c # cs" p b] by auto
qed

lemma contains_append_left: "contains s p \<Longrightarrow> contains (a @ s) p"
  by (induction a) auto

lemma strip_with_decomp: "\<exists>a b. s = a @ strip_with P s @ b"
proof -
  let ?t = "dropWhile P s"
  have "s = takeWhile P s @ ?t" by simp
  moreover have "rev ?t = takeWhile P (rev ?t) @ dropWhile P (rev ?t)" by simp
  then have "?t = rev (dropWhile P (rev ?t)) @ rev (takeWhile P (rev ?t))"
    by (metis rev_append rev_rev_ident)
  ultimately have "s = takeWhile P s @ strip_with P s @ rev (takeWhile P (rev ?t))"
    by (simp add: strip_with_def)
  then show ?thesis by blast
qed

lemma is_space_lower_char: "is_space (lower_char c) = is_space c"
  by (auto simp: is_space_def lower_char_def is_upper_def)

lemma strip_lower: "strip (lower s) = lower (strip s)"
proof -
  have c: "is_space \<circ> lower_char = is_space"
    by (rule ext) (simp add: is_space_lower_char)
  show ?thesis
    by (simp add: strip_def strip_with_def lower_def dropWhile_map rev_map c)
qed

lemma startswith_stripped_contains:
  assumes "startswith (lower (strip d)) p"
  shows "contains (lower d) p"
proof -
  obtain a b where "d = a @ strip d @ b"
    using strip_with_decomp [of d is_space] by (auto simp: strip_def)
  then have "lower d = lower a @ lower (strip d) @ lower b"
    by (metis lower_def map_append)
  moreover have "contains (lower (strip d) @ lower b) p"
    using assms by (intro contains_append_right startswith_contains)
  ultimately show ?thesis
    by (simp add: contains_append_left)
qed

lemma body_row_step_required:
  "snd (body_row_step (properties, required_fields) row)
     = (if marks_required row then required_fields @ [strip (row ! 0)] else required_fields)"
  using startswith_stripped_contains [of "row ! 3" "''required''"]
  by (auto simp: body_row_step_def marks_required_def Let_def strip_lower)

lemma foldl_body_rows_required:
  "snd (foldl body_row_step (properties, required_fields) rws)
     = required_fields @ map (\<lambda>row. strip (row ! 0)) (filter marks_required rws)"
proof (induction rws arbitrary: properties required_fields)
  case Nil
  show ?case by simp
next
  case (Cons row rws)
  obtain ps rq where st: "body_row_step (properties, required_fields) row = (ps, rq)"
    by (cases "body_row_step (properties, required_fields) row")
  then have "rq = (if marks_required row then required_fields @ [strip (row ! 0)] else required_fields)"
    using body_row_step_required [of properties required_fields row] by simp
  then show ?case
    using Cons.IH [of ps rq] st by simp
qed

lemma parse_request_body_required:
  assumes "parse_request_body body_rows = Some rb"
  shows "bs_required (rb_schema rb) =
     (let req = map (\<lambda>row. strip (row ! 0)) (filter marks_required body_rows)
      in if req \<noteq> [] then Some req else None)"
proof -
  obtain ps rq where f: "foldl body_row_step ([], []) body_rows = (ps, rq)"
    by (cases "foldl body_row_step ([], []) body_rows")
  then have "rq = map (\<lambda>row. strip (row ! 0)) (filter marks_required body_rows)"
    using foldl_body_rows_required [of "[]" "[]" body_rows] by simp
  then show ?thesis
    using assms f by (auto simp: parse_request_body_def Let_def split: if_splits)
qed

subsection \<open>The paths of the document\<close>

lemma add_file_keys:
  "map fst (add_file paths f) =
     (case parse_html_file f of
        None \<Rightarrow> map fst paths
      | Some data \<Rightarrow> if pf_api_path data \<in> set (map fst paths) then map fst paths
                     else map fst paths @ [pf_api_path data])"
  by (auto simp: add_file_def Let_def map_entry_keys update_keys map_of_eq_None_iff
      split: option.splits)

lemma add_file_lookup:
  "lookup_operation (add_file paths f) path method =
     (case parse_html_file f of
        None \<Rightarrow> lookup_operation paths path method
      | Some data \<Rightarrow> if same_operation path method data then Some (operation_of data)
                     else lookup_operation paths path method)"
  by (auto simp: add_file_def lookup_operation_def same_operation_def Let_def map_of_map_entry
      update_conv' split: option.splits)

lemma parsed_files_snoc:
  "parsed_files (fs @ [f]) = parsed_files fs @ (case parse_html_file f of None \<Rightarrow> [] | Some d \<Rightarrow> [d])"
  by (auto simp: parsed_files_def List.map_filter_def split: option.splits)

lemma build_openapi_snoc:
  "d_paths (build_openapi (fs @ [f])) = add_file (d_paths (build_openapi fs)) f"
  by (simp add: build_openapi_def)

lemma build_openapi_lookup:
  "lookup_operation (d_paths (build_openapi fs)) path method =
     map_option operation_of (List.find (same_operation path method) (rev (parsed_files fs)))"
proof (induction fs rule: rev_induct)
  case Nil
  show ?case by (simp add: build_openapi_def lookup_operation_def parsed_files_def List.map_filter_def)
next
  case (snoc f fs)
  then show ?case
    by (simp add: build_openapi_snoc add_file_lookup parsed_files_snoc split: option.splits)
qed

lemma build_openapi_keys:
  "map fst (d_paths (build_openapi fs)) = rev (remdups (rev (map pf_api_path (parsed_files fs))))"
proof (induction fs rule: rev_induct)
  case Nil
  show ?case by (simp add: build_openapi_def parsed_files_def List.map_filter_def)
next
  case (snoc f fs)
  have "set (map fst (d_paths (build_openapi fs))) = set (map pf_api_path (parsed_files fs))"
    by (simp only: snoc set_rev set_remdups)
  then show ?case
    using snoc by (simp add: build_openapi_snoc add_file_keys parsed_files_snoc split: option.splits)
qed

subsection \<open>Parameter names\<close>

lemma parse_parameters_names:
  "map p_name (parse_parameters params_rows) = map (\<lambda>row. strip (row ! 0)) (filter param_row_ok params_rows)"
proof (induction params_rows)
  case Nil
  show ?case by (simp add: parse_parameters_def List.map_filter_def)
next
  case (Cons row rws)
  have "parse_parameters (row # rws) =
      (case param_of_row row of None \<Rightarrow> [] | Some p \<Rightarrow> [p]) @ parse_parameters rws"
    by (auto simp: parse_parameters_def List.map_filter_def split: option.splits)
  moreover have "map p_name (case param_of_row row of None \<Rightarrow> [] | Some p \<Rightarrow> [p])
      = (if param_row_ok row then [strip (row ! 0)] else [])"
    by (auto simp: param_of_row_def param_row_ok_def Let_def)
  ultimately show ?case
    using Cons by simp
qed

lemma bindings_distinct:
  assumes d: "distinct (map (\<lambda>p. to_snake (p_name p)) (filter table_param ps))"
    and r: "''range_header'' \<notin> set (map (\<lambda>p. to_snake (p_name p)) (filter table_param ps))"
  shows "distinct (path_bindings ps @ kw_bindings ps)"
proof -
  let ?f = "\<lambda>p :: param. to_snake (p_name p)"
  let ?R = "filter table_param ps"
  have pp: "path_params_of ps = filter (\<lambda>p. p_in p = ''path'') ?R"
    by (auto simp: path_params_of_def table_param_def intro: filter_cong)
  have op: "optional_params_of ps = filter (\<lambda>p. p_in p \<in> set [''query'', ''header'']) ?R"
    by (auto simp: optional_params_of_def table_param_def intro: filter_cong)
  have inj: "inj_on ?f (set ?R)" and dR: "distinct ?R"
    using d by (simp_all add: distinct_map)
  have kw: "kw_name p = ?f p \<or> (kw_name p = ''range_header'' \<and> ?f p = ''range'')" for p
    by (simp add: kw_name_def Let_def)
  have nr: "?f p \<noteq> ''range_header''" if "p \<in> set ?R" for p
    using r that by (auto simp: image_iff)
  have eq: "p = q" if "p \<in> set ?R" "q \<in> set ?R" "kw_name p = kw_name q" for p q
  proof -
    have "?f p = ?f q"
      using kw [of p] kw [of q] nr [OF that(1)] nr [OF that(2)] that(3) by auto
    then show ?thesis
      using inj that(1,2) by (auto dest: inj_onD)
  qed
  have eq2: "p = q" if "p \<in> set ?R" "q \<in> set ?R" "?f p = kw_name q" for p q
  proof -
    have "?f p = ?f q"
      using kw [of q] nr [OF that(1)] that(3) by auto
    then show ?thesis
      using inj that(1,2) by (auto dest: inj_onD)
  qed
  have 1: "distinct (path_bindings ps)"
    unfolding path_bindings_def pp using d by (rule distinct_map_filter)
  have 2: "distinct (kw_bindings ps)"
  proof -
    let ?O = "filter (\<lambda>p. p_in p \<in> set [''query'', ''header'']) ?R"
    have a: "distinct ?O"
      using dR by (rule distinct_filter)
    have b: "inj_on kw_name (set ?O)"
      by (rule inj_onI) (rule eq, simp_all)
    show ?thesis
      unfolding kw_bindings_def op distinct_map using a b by (rule conjI)
  qed
  have 3: "set (path_bindings ps) \<inter> set (kw_bindings ps) = {}"
  proof (rule ccontr)
    assume "set (path_bindings ps) \<inter> set (kw_bindings ps) \<noteq> {}"
    then obtain p q where "p \<in> set ?R" "p_in p = ''path''" "q \<in> set ?R"
      "p_in q \<in> set [''query'', ''header'']" "?f p = kw_name q"
      unfolding path_bindings_def kw_bindings_def pp op by auto
    then show False
      using eq2 [of p q] by auto
  qed
  from 1 2 3 show ?thesis by simp
qed

subsection \<open>Operations and methods\<close>




















section \<open>Properties\<close>

text \<open>
  Claim C7. In one generated module the method names are pairwise different, one for
  each operation. An operation keeps its base name when no earlier method has it;
  otherwise its name is the base name with \<open>_k\<close> appended, for the least \<open>k \<ge> 2\<close> whose
  name no earlier method has. When all operations derive the same base name, the names
  are the base name, then \<open>_2\<close>, \<open>_3\<close>, \<dots> in the order of the operations.
\<close>

theorem method_names_deduplicated:
  "length (method_names tag ops) = length ops \<and>
   distinct (method_names tag ops) \<and>
   (\<forall>i<length ops.
      (base_name (ops ! i) \<notin> set (take i (method_names tag ops)) \<longrightarrow>
         method_names tag ops ! i = base_name (ops ! i)) \<and>
      (base_name (ops ! i) \<in> set (take i (method_names tag ops)) \<longrightarrow>
         (\<exists>k\<ge>2. method_names tag ops ! i = suffixed (base_name (ops ! i)) k \<and>
            (\<forall>j. 2 \<le> j \<and> j < k \<longrightarrow>
               suffixed (base_name (ops ! i)) j \<in> set (take i (method_names tag ops)))))) \<and>
   ((\<forall>op\<in>set ops. base_name op = b) \<and> ops \<noteq> [] \<longrightarrow>
      method_names tag ops = b # map (suffixed b) [2..<Suc (length ops)])"
proof (intro conjI allI impI)
  show "length (method_names tag ops) = length ops"
    by (simp add: method_names_def generate_api_module_def length_gen_methods)
  show "distinct (method_names tag ops)"
    using gen_methods_names_fresh [of "[]" ops]
    by (simp add: method_names_def generate_api_module_def)
next
  fix i
  assume i: "i < length ops"
  from gen_methods_name_at [OF i, of "[]"]
  have at: "(base_name (ops ! i) \<notin> set (take i (method_names tag ops)) \<longrightarrow>
         method_names tag ops ! i = base_name (ops ! i)) \<and>
      (base_name (ops ! i) \<in> set (take i (method_names tag ops)) \<longrightarrow>
         (\<exists>k\<ge>2. method_names tag ops ! i = suffixed (base_name (ops ! i)) k \<and>
            (\<forall>j. 2 \<le> j \<and> j < k \<longrightarrow>
               suffixed (base_name (ops ! i)) j \<in> set (take i (method_names tag ops)))))"
    by (simp add: method_names_def generate_api_module_def Let_def)
  {
    assume "base_name (ops ! i) \<notin> set (take i (method_names tag ops))"
    then show "method_names tag ops ! i = base_name (ops ! i)"
      using at by blast
  }
  {
    assume "base_name (ops ! i) \<in> set (take i (method_names tag ops))"
    then show "\<exists>k\<ge>2. method_names tag ops ! i = suffixed (base_name (ops ! i)) k \<and>
            (\<forall>j. 2 \<le> j \<and> j < k \<longrightarrow>
               suffixed (base_name (ops ! i)) j \<in> set (take i (method_names tag ops)))"
      using at by blast
  }
next
  assume "(\<forall>op\<in>set ops. base_name op = b) \<and> ops \<noteq> []"
  then show "method_names tag ops = b # map (suffixed b) [2..<Suc (length ops)]"
    using method_names_same_base [of ops b tag] by blast
qed

theorem method_names_deduplicated_witness:
  "method_names ''a''
     [\<lparr>so_method = ''get'', so_path = ''/a/{id}'', so_operation_id = [], so_summary = [],
       so_parameters = [], so_request_body = None, so_response_schema = SEmpty\<rparr>,
      \<lparr>so_method = ''get'', so_path = ''/a/id'', so_operation_id = [], so_summary = [],
       so_parameters = [], so_request_body = None, so_response_schema = SEmpty\<rparr>,
      \<lparr>so_method = ''get'', so_path = ''/a/Id'', so_operation_id = [], so_summary = [],
       so_parameters = [], so_request_body = None, so_response_schema = SEmpty\<rparr>]
   = [''get_a_id'', ''get_a_id_2'', ''get_a_id_3'']"
proof -
  let ?o1 = "\<lparr>so_method = ''get'', so_path = ''/a/{id}'', so_operation_id = [], so_summary = [],
       so_parameters = [], so_request_body = None, so_response_schema = SEmpty\<rparr>"
  let ?o2 = "\<lparr>so_method = ''get'', so_path = ''/a/id'', so_operation_id = [], so_summary = [],
       so_parameters = [], so_request_body = None, so_response_schema = SEmpty\<rparr>"
  let ?o3 = "\<lparr>so_method = ''get'', so_path = ''/a/Id'', so_operation_id = [], so_summary = [],
       so_parameters = [], so_request_body = None, so_response_schema = SEmpty\<rparr>"
  have b1: "base_name ?o1 = ''get_a_id''" by code_simp
  have b2: "base_name ?o2 = ''get_a_id''" by code_simp
  have b3: "base_name ?o3 = ''get_a_id''" by code_simp
  have hyp: "(\<forall>op\<in>set [?o1, ?o2, ?o3]. base_name op = ''get_a_id'') \<and> [?o1, ?o2, ?o3] \<noteq> []"
    using b1 b2 b3 by simp
  have names: "''get_a_id'' # map (suffixed ''get_a_id'') [2..<Suc (length [?o1, ?o2, ?o3])]
      = [''get_a_id'', ''get_a_id_2'', ''get_a_id_3'']"
    by code_simp
  from method_names_deduplicated [of "''a''" "[?o1, ?o2, ?o3]" "''get_a_id''"] hyp
  have "method_names ''a'' [?o1, ?o2, ?o3]
      = ''get_a_id'' # map (suffixed ''get_a_id'') [2..<Suc (length [?o1, ?o2, ?o3])]"
    by blast
  then show ?thesis
    using names by simp
qed



text \<open>
  Claim C9. \<open>_json_to_schema\<close> is the function of the specification: boolean for a bool,
  integer for an int, number for a float, string for a str, an array with the schema of
  the first element for a non-empty list, an array with empty items for the empty list,
  an object with the schema of each value for a dict, and the empty schema for any other
  value. The sample \<open>{"id": 1, "name": "x", "tags": ["a"]}\<close> gives an object with an
  integer \<open>id\<close>, a string \<open>name\<close> and \<open>tags\<close> an array of strings.
\<close>

theorem json_to_schema_is_reference:
  "json_to_schema v = schema_ref v \<and>
   json_to_schema (PDict [(''id'', PInt 1), (''name'', PStr ''x''), (''tags'', PList [PStr ''a''])])
     = SObject [(''id'', SType ''integer''), (''name'', SType ''string''),
                (''tags'', SArray (SType ''string''))]"
proof
  show "json_to_schema v = schema_ref v"
  proof (induction v)
    case (PList xs)
    then show ?case
      by (cases xs)
         (simp_all add: json_to_schema.simps [of "PList _"] isinstance_bool_def
            isinstance_int_def isinstance_float_def isinstance_str_def isinstance_list_def
            list_elems_def)
  next
    case (PDict kvs)
    have "map (\<lambda>kv. (fst kv, json_to_schema (snd kv))) kvs
        = map (\<lambda>(k, v). (k, schema_ref v)) kvs"
      using PDict by (auto simp: snds.simps)
    then show ?case
      by (simp add: json_to_schema.simps [of "PDict _"] isinstance_bool_def isinstance_int_def
          isinstance_float_def isinstance_str_def isinstance_list_def isinstance_dict_def
          dict_items_def)
  qed (simp_all add: json_to_schema.simps isinstance_bool_def isinstance_int_def
        isinstance_float_def isinstance_str_def isinstance_list_def isinstance_dict_def)
  show "json_to_schema (PDict [(''id'', PInt 1), (''name'', PStr ''x''), (''tags'', PList [PStr ''a''])])
     = SObject [(''id'', SType ''integer''), (''name'', SType ''string''),
                (''tags'', SArray (SType ''string''))]"
    by code_simp
qed

text \<open>
  Claim C10. The snake\_case converter never returns a Python keyword, and so neither
  is a method name of a generated module, a name bound for a parameter in a signature,
  a module name, or an attribute of the client (the converter applied to the tag).
\<close>

theorem generated_names_not_keywords:
  "\<not> iskeyword (to_snake name) \<and>
   \<not> iskeyword (path_to_method_name method path) \<and>
   \<not> iskeyword (sanitise_module_name tag) \<and>
   (\<forall>n\<in>set (method_names tag ops). \<not> iskeyword n) \<and>
   (\<forall>n\<in>set (path_bindings ps @ kw_bindings ps). \<not> iskeyword n)"
proof (intro conjI ballI)
  show "\<not> iskeyword (to_snake name)"
    by (rule to_snake_not_keyword)
  show "\<not> iskeyword (path_to_method_name method path)"
    by (simp add: path_to_method_name_def Let_def to_snake_not_keyword)
  show "\<not> iskeyword (sanitise_module_name tag)"
    unfolding sanitise_module_name_def Let_def
    by (auto simp: to_snake_not_keyword dest: keyword_no_underscore)
next
  fix n
  assume "n \<in> set (method_names tag ops)"
  then have "n \<in> set (map gm_name (gen_methods [] ops))"
    by (simp add: method_names_def generate_api_module_def)
  from gen_methods_name_form [OF this] obtain op where
    "n = base_name op \<or> (\<exists>k. n = suffixed (base_name op) k)"
    by blast
  then show "\<not> iskeyword n"
    by (auto simp: base_name_def path_to_method_name_def Let_def to_snake_not_keyword
        suffixed_not_keyword)
next
  fix n
  assume "n \<in> set (path_bindings ps @ kw_bindings ps)"
  then have "(\<exists>p::param. n = to_snake (p_name p)) \<or> (\<exists>p. n = kw_name p)"
    by (auto simp: path_bindings_def kw_bindings_def)
  then show "\<not> iskeyword n"
  proof (elim disjE exE)
    fix p :: param
    assume "n = to_snake (p_name p)"
    then show ?thesis by (simp add: to_snake_not_keyword)
  next
    fix p
    assume "n = kw_name p"
    then show ?thesis
      by (auto simp: kw_name_def Let_def to_snake_not_keyword dest: keyword_no_underscore)
  qed
qed

theorem generated_names_not_keywords_witness:
  "iskeyword ''class'' \<and> to_snake ''Class'' = ''class_'' \<and> \<not> iskeyword ''class_'' \<and>
   ''class_'' \<in> set (path_bindings [\<lparr>p_name = ''class'', p_in = ''path'', p_description = [],
                                      p_required = True, p_type = ''string''\<rparr>])"
proof -
  let ?p = "\<lparr>p_name = ''class'', p_in = ''path'', p_description = [],
             p_required = True, p_type = ''string''\<rparr>"
  have k: "iskeyword ''class''" by code_simp
  have e: "to_snake ''Class'' = ''class_''" by code_simp
  have b: "path_bindings [?p] = [''class_'']" by code_simp
  from generated_names_not_keywords [of "''Class''" "''get''" "''/x''" "''t''" "[]" "[?p]"]
  have "\<not> iskeyword (to_snake ''Class'')"
    and "\<forall>n\<in>set (path_bindings [?p] @ kw_bindings [?p]). \<not> iskeyword n"
    by blast+
  then show ?thesis
    using k e b by simp
qed


text \<open>
  Claim C2, amended. When every row of the response table, after the header row, has a
  first cell that is not a number, the response map of the parsed operation has the one
  code \<open>200\<close> with the description \<open>Success\<close>, and this response carries the schema
  inferred from the sample (the bare object when there is none) as its content.
\<close>

theorem default_response_map:
  assumes "parse_html_file doc = Some data"
    and "\<forall>row\<in>set (response_rows_of doc). row \<noteq> [] \<longrightarrow> \<not> isdigit (strip (row ! 0))"
  shows "pf_responses data =
     [(''200'', \<lparr>r_description = ''Success'', r_content = Some (inferred_schema doc)\<rparr>)]"
proof -
  have "parse_responses (response_rows_of doc)
      = [(''200'', \<lparr>r_description = ''Success'', r_content = None\<rparr>)]"
    using foldl_response_rows_skip [OF assms(2), of "[]"]
    by (simp add: parse_responses_def)
  then show ?thesis
    using parse_html_file_responses [OF assms(1)]
    by (simp add: attach_schema_def inferred_schema_def Let_def)
qed

theorem default_response_map_witness:
  "response_rows_of
     \<lparr>h_title = Some (''GET'', ''/x''), h_description = [],
      h_tables = [\<lparr>caption = ''Response Codes'',
                   rows = [[''HTTP Response Code'', ''Unique Code'', ''Description''],
                           [''abc'', ''1'', ''text'']]\<rparr>],
      h_pre_json = []\<rparr> = [[''abc'', ''1'', ''text'']]
   \<and> \<not> isdigit (strip ''abc'')
   \<and> parse_html_file
     \<lparr>h_title = Some (''GET'', ''/x''), h_description = [],
      h_tables = [\<lparr>caption = ''Response Codes'',
                   rows = [[''HTTP Response Code'', ''Unique Code'', ''Description''],
                           [''abc'', ''1'', ''text'']]\<rparr>],
      h_pre_json = []\<rparr>
     = Some \<lparr>pf_method = ''GET'', pf_api_path = ''/x'', pf_summary = [], pf_description = [],
             pf_parameters = [], pf_request_body = None,
             pf_responses = [(''200'', \<lparr>r_description = ''Success'',
                                       r_content = Some (SType ''object'')\<rparr>)]\<rparr>"
proof -
  let ?doc = "\<lparr>h_title = Some (''GET'', ''/x''), h_description = [],
      h_tables = [\<lparr>caption = ''Response Codes'',
                   rows = [[''HTTP Response Code'', ''Unique Code'', ''Description''],
                           [''abc'', ''1'', ''text'']]\<rparr>],
      h_pre_json = []\<rparr>"
  let ?data = "\<lparr>pf_method = ''GET'', pf_api_path = ''/x'', pf_summary = [], pf_description = [],
             pf_parameters = [], pf_request_body = None,
             pf_responses = [(''200'', \<lparr>r_description = ''Success'',
                                       r_content = Some (SType ''object'')\<rparr>)]\<rparr>"
  have rs: "response_rows_of ?doc = [[''abc'', ''1'', ''text'']]" by code_simp
  have nd: "\<not> isdigit (strip ''abc'')" by code_simp
  have p: "parse_html_file ?doc = Some ?data" by code_simp
  have h: "\<forall>row\<in>set (response_rows_of ?doc). row \<noteq> [] \<longrightarrow> \<not> isdigit (strip (row ! 0))"
    using nd by (simp add: rs)
  have "inferred_schema ?doc = SType ''object''" by code_simp
  with default_response_map [OF p h] show ?thesis
    using rs nd p by simp
qed

theorem default_response_map_counterexample:
  "response_rows_of
     \<lparr>h_title = Some (''GET'', ''/x''), h_description = [],
      h_tables = [\<lparr>caption = ''Response Codes'',
                   rows = [[''HTTP Response Code'', ''Unique Code'', ''Description''],
                           [''abc'', ''1'', ''text'']]\<rparr>],
      h_pre_json = []\<rparr> = [[''abc'', ''1'', ''text'']]
   \<and> \<not> isdigit (strip ''abc'')
   \<and> map_option pf_responses (parse_html_file
     \<lparr>h_title = Some (''GET'', ''/x''), h_description = [],
      h_tables = [\<lparr>caption = ''Response Codes'',
                   rows = [[''HTTP Response Code'', ''Unique Code'', ''Description''],
                           [''abc'', ''1'', ''text'']]\<rparr>],
      h_pre_json = []\<rparr>)
     \<noteq> Some [(''200'', \<lparr>r_description = ''Success'', r_content = None\<rparr>)]"
  by code_simp

text \<open>
  Claim C5. In a parsed file whose method is POST and whose response map has the codes
  \<open>200\<close> and \<open>201\<close>, the response \<open>201\<close> carries the inferred schema (the bare object
  when there is no sample) and the response \<open>200\<close> carries none.
\<close>

theorem post_schema_on_201:
  assumes "parse_html_file doc = Some data" and "pf_method data = ''POST''"
    and "map_of (pf_responses data) ''200'' = Some r200"
    and "map_of (pf_responses data) ''201'' = Some r201"
  shows "r_content r201 = Some (inferred_schema doc) \<and> r_content r200 = None"
proof -
  let ?rs = "parse_responses (response_rows_of doc)"
  let ?s = "first_sample (h_pre_json doc)"
  have eq: "pf_responses data = attach_schema ''POST'' ?s ?rs"
    using parse_html_file_responses [OF assms(1)] assms(2) by simp
  have "map_of ?rs ''201'' \<noteq> None"
  proof
    assume n: "map_of ?rs ''201'' = None"
    then have "map_of (attach_schema ''POST'' ?s ?rs) ''201'' = None"
      by (auto simp: attach_schema_def Let_def map_of_map_entry)
    then show False using assms(4) eq by simp
  qed
  note m = attach_schema_post_both [OF this, of ?s]
  obtain r where r: "map_of ?rs ''201'' = Some r"
    using \<open>map_of ?rs ''201'' \<noteq> None\<close> by blast
  have "r201 = r\<lparr>r_content := Some (inferred_schema doc)\<rparr>"
    using assms(4) eq m r by (simp add: inferred_schema_def)
  moreover have "map_of ?rs ''200'' = Some r200"
    using assms(3) eq m by simp
  ultimately show ?thesis
    using parse_responses_no_content by auto
qed

theorem post_schema_on_201_witness:
  "parse_html_file
     \<lparr>h_title = Some (''post'', ''/x''), h_description = [],
      h_tables = [\<lparr>caption = ''Response Codes'',
                   rows = [[''HTTP Response Code'', ''Unique Code'', ''Description''],
                           [''200'', [], ''OK''], [''201'', [], ''Created'']]\<rparr>],
      h_pre_json = [Some (PDict [(''id'', PInt 1)])]\<rparr>
     = Some \<lparr>pf_method = ''POST'', pf_api_path = ''/x'', pf_summary = [], pf_description = [],
             pf_parameters = [], pf_request_body = None,
             pf_responses =
               [(''200'', \<lparr>r_description = ''OK'', r_content = None\<rparr>),
                (''201'', \<lparr>r_description = ''Created'',
                           r_content = Some (SObject [(''id'', SType ''integer'')])\<rparr>)]\<rparr>
   \<and> inferred_schema
     \<lparr>h_title = Some (''post'', ''/x''), h_description = [],
      h_tables = [\<lparr>caption = ''Response Codes'',
                   rows = [[''HTTP Response Code'', ''Unique Code'', ''Description''],
                           [''200'', [], ''OK''], [''201'', [], ''Created'']]\<rparr>],
      h_pre_json = [Some (PDict [(''id'', PInt 1)])]\<rparr>
     = SObject [(''id'', SType ''integer'')]"
proof -
  let ?doc = "\<lparr>h_title = Some (''post'', ''/x''), h_description = [],
      h_tables = [\<lparr>caption = ''Response Codes'',
                   rows = [[''HTTP Response Code'', ''Unique Code'', ''Description''],
                           [''200'', [], ''OK''], [''201'', [], ''Created'']]\<rparr>],
      h_pre_json = [Some (PDict [(''id'', PInt 1)])]\<rparr>"
  let ?r200 = "\<lparr>r_description = ''OK'', r_content = None\<rparr>"
  let ?r201 = "\<lparr>r_description = ''Created'',
                r_content = Some (SObject [(''id'', SType ''integer'')])\<rparr>"
  let ?data = "\<lparr>pf_method = ''POST'', pf_api_path = ''/x'', pf_summary = [], pf_description = [],
             pf_parameters = [], pf_request_body = None,
             pf_responses = [(''200'', ?r200), (''201'', ?r201)]\<rparr>"
  have p: "parse_html_file ?doc = Some ?data" by code_simp
  have m: "pf_method ?data = ''POST''" by simp
  have a: "map_of (pf_responses ?data) ''200'' = Some ?r200" by simp
  have b: "map_of (pf_responses ?data) ''201'' = Some ?r201" by simp
  from post_schema_on_201 [OF p m a b]
  have "inferred_schema ?doc = SObject [(''id'', SType ''integer'')]" by simp
  then show ?thesis
    using p by simp
qed


text \<open>
  Claim C3. A row of the request-body table appends its field to the list of required
  fields exactly when it has at least four cells, a name, and a description cell that,
  lower-cased and stripped, starts with \<open>required\<close>; a description with the word
  elsewhere appends nothing. The \<open>required\<close> list of the body schema is the list of the
  names of these rows, in table order, and is absent when there is none. When the rows
  with a name have different names, a field is in the list exactly when the description
  of its row starts with \<open>required\<close>.
\<close>

theorem body_field_required:
  "snd (body_row_step (properties, required_fields) row)
     = (if marks_required row then required_fields @ [strip (row ! 0)] else required_fields) \<and>
   (parse_request_body body_rows = Some rb \<longrightarrow>
      bs_required (rb_schema rb) =
        (let req = map (\<lambda>row. strip (row ! 0)) (filter marks_required body_rows)
         in if req \<noteq> [] then Some req else None)) \<and>
   (parse_request_body body_rows = Some rb \<and>
    distinct (map (\<lambda>row. strip (row ! 0))
                  (filter (\<lambda>row. 4 \<le> length row \<and> strip (row ! 0) \<noteq> []) body_rows)) \<and>
    r \<in> set body_rows \<and> 4 \<le> length r \<and> strip (r ! 0) \<noteq> [] \<longrightarrow>
      (strip (r ! 0) \<in> set (case bs_required (rb_schema rb) of None \<Rightarrow> [] | Some l \<Rightarrow> l)
         \<longleftrightarrow> startswith (strip (lower (r ! 3))) ''required''))"
proof (intro conjI impI)
  show "snd (body_row_step (properties, required_fields) row)
     = (if marks_required row then required_fields @ [strip (row ! 0)] else required_fields)"
    by (rule body_row_step_required)
next
  assume "parse_request_body body_rows = Some rb"
  then show "bs_required (rb_schema rb) =
        (let req = map (\<lambda>row. strip (row ! 0)) (filter marks_required body_rows)
         in if req \<noteq> [] then Some req else None)"
    by (rule parse_request_body_required)
next
  let ?name = "\<lambda>row :: string list. strip (row ! 0)"
  let ?Q = "\<lambda>row :: string list. 4 \<le> length row \<and> strip (row ! 0) \<noteq> []"
  assume a: "parse_request_body body_rows = Some rb \<and>
    distinct (map ?name (filter ?Q body_rows)) \<and>
    r \<in> set body_rows \<and> 4 \<le> length r \<and> strip (r ! 0) \<noteq> []"
  then have "bs_required (rb_schema rb) =
        (let req = map ?name (filter marks_required body_rows)
         in if req \<noteq> [] then Some req else None)"
    by (intro parse_request_body_required) simp
  then have "(case bs_required (rb_schema rb) of None \<Rightarrow> [] | Some l \<Rightarrow> l)
      = map ?name (filter marks_required body_rows)"
    by (simp add: Let_def)
  then have req: "set (case bs_required (rb_schema rb) of None \<Rightarrow> [] | Some l \<Rightarrow> l)
      = ?name ` {row \<in> set body_rows. marks_required row}"
    by simp
  have inj: "inj_on ?name (set (filter ?Q body_rows))"
    using a by (simp add: distinct_map)
  have r: "r \<in> set (filter ?Q body_rows)" using a by simp
  show "?name r \<in> set (case bs_required (rb_schema rb) of None \<Rightarrow> [] | Some l \<Rightarrow> l)
         \<longleftrightarrow> startswith (strip (lower (r ! 3))) ''required''"
  proof
    assume "?name r \<in> set (case bs_required (rb_schema rb) of None \<Rightarrow> [] | Some l \<Rightarrow> l)"
    then obtain row where row: "row \<in> set body_rows" "marks_required row" "?name row = ?name r"
      using req by auto
    then have "row \<in> set (filter ?Q body_rows)"
      by (simp add: marks_required_def)
    then have "row = r"
      using inj r row(3) by (auto dest: inj_onD)
    then show "startswith (strip (lower (r ! 3))) ''required''"
      using row(2) by (simp add: marks_required_def)
  next
    assume "startswith (strip (lower (r ! 3))) ''required''"
    then have "marks_required r"
      using a by (simp add: marks_required_def)
    then show "?name r \<in> set (case bs_required (rb_schema rb) of None \<Rightarrow> [] | Some l \<Rightarrow> l)"
      using req a by blast
  qed
qed

theorem body_field_required_witness:
  "parse_request_body
     [[''name'', ''String'', ''application/json'', ''Required - the name''],
      [''note'', ''String'', ''application/json'', ''Not required; see above''],
      [''x'', ''String'', ''text/plain'', ''  REQUIRED.'']]
   = Some \<lparr>rb_required = True, rb_mime = ''application/json'',
      rb_schema = \<lparr>bs_properties =
          [(''name'', \<lparr>bp_type = ''string'', bp_description = ''Required - the name''\<rparr>),
           (''note'', \<lparr>bp_type = ''string'', bp_description = ''Not required; see above''\<rparr>),
           (''x'', \<lparr>bp_type = ''string'', bp_description = ''REQUIRED.''\<rparr>)],
        bs_required = Some [''name'', ''x'']\<rparr>\<rparr>
   \<and> map (\<lambda>row. strip (row ! 0)) (filter marks_required
     [[''name'', ''String'', ''application/json'', ''Required - the name''],
      [''note'', ''String'', ''application/json'', ''Not required; see above''],
      [''x'', ''String'', ''text/plain'', ''  REQUIRED.'']]) = [''name'', ''x'']"
proof -
  let ?rows = "[[''name'', ''String'', ''application/json'', ''Required - the name''],
      [''note'', ''String'', ''application/json'', ''Not required; see above''],
      [''x'', ''String'', ''text/plain'', ''  REQUIRED.'']]"
  let ?rb = "\<lparr>rb_required = True, rb_mime = ''application/json'',
      rb_schema = \<lparr>bs_properties =
          [(''name'', \<lparr>bp_type = ''string'', bp_description = ''Required - the name''\<rparr>),
           (''note'', \<lparr>bp_type = ''string'', bp_description = ''Not required; see above''\<rparr>),
           (''x'', \<lparr>bp_type = ''string'', bp_description = ''REQUIRED.''\<rparr>)],
        bs_required = Some [''name'', ''x'']\<rparr>\<rparr>"
  have p: "parse_request_body ?rows = Some ?rb" by code_simp
  from body_field_required [of "[]" "[]" "[]" ?rows ?rb "[]"] p
  have "bs_required (rb_schema ?rb) =
        (let req = map (\<lambda>row. strip (row ! 0)) (filter marks_required ?rows)
         in if req \<noteq> [] then Some req else None)"
    by blast
  then have "map (\<lambda>row. strip (row ! 0)) (filter marks_required ?rows) = [''name'', ''x'']"
    by (simp add: Let_def split: if_splits)
  then show ?thesis
    using p by simp
qed


text \<open>
  Claim C6. The operation that the document has under a path and a method is the one of
  the last file, in processing order, that gives this path and method: a later file
  replaces an earlier one, and nothing else happens. The paths of the document are the
  paths of the files, each once, in the order of their first occurrence: a further file
  leaves the paths as they are when its path is there already, and adds its path at the
  end otherwise.
\<close>

theorem later_file_wins_paths_in_order:
  "lookup_operation (d_paths (build_openapi html_files)) path method
     = map_option operation_of
         (List.find (same_operation path method) (rev (parsed_files html_files))) \<and>
   distinct (map fst (d_paths (build_openapi html_files))) \<and>
   map fst (d_paths (build_openapi html_files))
     = rev (remdups (rev (map pf_api_path (parsed_files html_files)))) \<and>
   map fst (d_paths (build_openapi (html_files @ [f])))
     = (case parse_html_file f of
          None \<Rightarrow> map fst (d_paths (build_openapi html_files))
        | Some data \<Rightarrow>
            if pf_api_path data \<in> set (map fst (d_paths (build_openapi html_files)))
            then map fst (d_paths (build_openapi html_files))
            else map fst (d_paths (build_openapi html_files)) @ [pf_api_path data])"
proof (intro conjI)
  show "lookup_operation (d_paths (build_openapi html_files)) path method
     = map_option operation_of
         (List.find (same_operation path method) (rev (parsed_files html_files)))"
    by (rule build_openapi_lookup)
  show "distinct (map fst (d_paths (build_openapi html_files)))"
    by (simp add: build_openapi_keys)
  show "map fst (d_paths (build_openapi html_files))
     = rev (remdups (rev (map pf_api_path (parsed_files html_files))))"
    by (rule build_openapi_keys)
  show "map fst (d_paths (build_openapi (html_files @ [f])))
     = (case parse_html_file f of
          None \<Rightarrow> map fst (d_paths (build_openapi html_files))
        | Some data \<Rightarrow>
            if pf_api_path data \<in> set (map fst (d_paths (build_openapi html_files)))
            then map fst (d_paths (build_openapi html_files))
            else map fst (d_paths (build_openapi html_files)) @ [pf_api_path data])"
    by (simp only: build_openapi_snoc add_file_keys)
qed

theorem later_file_wins_paths_in_order_witness:
  "map_option o_summary (lookup_operation (d_paths (build_openapi
     [\<lparr>h_title = Some (''GET'', ''/x''), h_description = ''first'', h_tables = [], h_pre_json = []\<rparr>,
      \<lparr>h_title = Some (''GET'', ''/a''), h_description = ''other'', h_tables = [], h_pre_json = []\<rparr>,
      \<lparr>h_title = Some (''get'', ''/x''), h_description = ''second'', h_tables = [], h_pre_json = []\<rparr>]))
     ''/x'' ''get'') = Some (Some ''second'') \<and>
   map fst (d_paths (build_openapi
     [\<lparr>h_title = Some (''GET'', ''/x''), h_description = ''first'', h_tables = [], h_pre_json = []\<rparr>,
      \<lparr>h_title = Some (''GET'', ''/a''), h_description = ''other'', h_tables = [], h_pre_json = []\<rparr>,
      \<lparr>h_title = Some (''get'', ''/x''), h_description = ''second'', h_tables = [], h_pre_json = []\<rparr>]))
     = [''/x'', ''/a'']"
proof -
  let ?fs = "[\<lparr>h_title = Some (''GET'', ''/x''), h_description = ''first'', h_tables = [], h_pre_json = []\<rparr>,
      \<lparr>h_title = Some (''GET'', ''/a''), h_description = ''other'', h_tables = [], h_pre_json = []\<rparr>,
      \<lparr>h_title = Some (''get'', ''/x''), h_description = ''second'', h_tables = [], h_pre_json = []\<rparr>]"
  have a: "map_option o_summary (map_option operation_of
         (List.find (same_operation ''/x'' ''get'') (rev (parsed_files ?fs))))
       = Some (Some ''second'')"
    by code_simp
  have b: "rev (remdups (rev (map pf_api_path (parsed_files ?fs)))) = [''/x'', ''/a'']"
    by code_simp
  from later_file_wins_paths_in_order [of ?fs "''/x''" "''get''"]
  have "lookup_operation (d_paths (build_openapi ?fs)) ''/x'' ''get''
     = map_option operation_of (List.find (same_operation ''/x'' ''get'') (rev (parsed_files ?fs)))"
    and "map fst (d_paths (build_openapi ?fs))
     = rev (remdups (rev (map pf_api_path (parsed_files ?fs))))"
    by blast+
  then show ?thesis
    using a b by simp
qed


text \<open>
  Claim C1, amended. Parameter names get no suffix. The parsed operation has one
  parameter for each row of the parameter table with at least six cells and a location
  among query, path and header, named by the stripped name cell, in table order. In a
  generated signature a path parameter is bound to its snake\_cased name, and a query or
  header parameter to its snake\_cased name, with \<open>range_header\<close> for \<open>range\<close>. These
  bindings are pairwise different when the snake\_cased names of the path, query and
  header parameters are pairwise different and none of them is \<open>range_header\<close>.
\<close>

theorem parameter_names_kept:
  "map p_name (parse_parameters params_rows)
     = map (\<lambda>row. strip (row ! 0)) (filter param_row_ok params_rows) \<and>
   (distinct (map (\<lambda>p. to_snake (p_name p)) (filter table_param ps)) \<and>
    ''range_header'' \<notin> set (map (\<lambda>p. to_snake (p_name p)) (filter table_param ps)) \<longrightarrow>
      distinct (path_bindings ps @ kw_bindings ps))"
  using parse_parameters_names [of params_rows] bindings_distinct [of ps] by blast

theorem parameter_names_kept_witness:
  "map (\<lambda>p. to_snake (p_name p)) (filter table_param (parse_parameters
     [[''offenseId'', ''path'', ''Required'', ''Number'', ''text/plain'', ''a''],
      [''Range'', ''header'', ''Optional'', ''String'', ''text/plain'', ''b''],
      [''fields'', ''query'', ''Optional'', ''String'', ''text/plain'', ''c'']]))
     = [''offense_id'', ''range'', ''fields''] \<and>
   path_bindings (parse_parameters
     [[''offenseId'', ''path'', ''Required'', ''Number'', ''text/plain'', ''a''],
      [''Range'', ''header'', ''Optional'', ''String'', ''text/plain'', ''b''],
      [''fields'', ''query'', ''Optional'', ''String'', ''text/plain'', ''c'']]) @
   kw_bindings (parse_parameters
     [[''offenseId'', ''path'', ''Required'', ''Number'', ''text/plain'', ''a''],
      [''Range'', ''header'', ''Optional'', ''String'', ''text/plain'', ''b''],
      [''fields'', ''query'', ''Optional'', ''String'', ''text/plain'', ''c'']])
     = [''offense_id'', ''range_header'', ''fields''] \<and>
   distinct (path_bindings (parse_parameters
     [[''offenseId'', ''path'', ''Required'', ''Number'', ''text/plain'', ''a''],
      [''Range'', ''header'', ''Optional'', ''String'', ''text/plain'', ''b''],
      [''fields'', ''query'', ''Optional'', ''String'', ''text/plain'', ''c'']]) @
   kw_bindings (parse_parameters
     [[''offenseId'', ''path'', ''Required'', ''Number'', ''text/plain'', ''a''],
      [''Range'', ''header'', ''Optional'', ''String'', ''text/plain'', ''b''],
      [''fields'', ''query'', ''Optional'', ''String'', ''text/plain'', ''c'']]))"
proof -
  let ?rows = "[[''offenseId'', ''path'', ''Required'', ''Number'', ''text/plain'', ''a''],
      [''Range'', ''header'', ''Optional'', ''String'', ''text/plain'', ''b''],
      [''fields'', ''query'', ''Optional'', ''String'', ''text/plain'', ''c'']]"
  let ?ps = "parse_parameters ?rows"
  have n: "map (\<lambda>p. to_snake (p_name p)) (filter table_param ?ps)
      = [''offense_id'', ''range'', ''fields'']"
    by code_simp
  have b: "path_bindings ?ps @ kw_bindings ?ps = [''offense_id'', ''range_header'', ''fields'']"
    by code_simp
  have h: "distinct (map (\<lambda>p. to_snake (p_name p)) (filter table_param ?ps)) \<and>
    ''range_header'' \<notin> set (map (\<lambda>p. to_snake (p_name p)) (filter table_param ?ps))"
    by (simp add: n)
  from parameter_names_kept [of "[]" ?ps] h
  have "distinct (path_bindings ?ps @ kw_bindings ?ps)"
    by blast
  then show ?thesis
    using n b by simp
qed

theorem parameter_names_kept_counterexample:
  "\<not> distinct (map (\<lambda>p. to_snake (p_name p)) (parse_parameters
     [[''id'', ''query'', ''optional'', ''String'', ''text/plain'', ''a''],
      [''id'', ''header'', ''optional'', ''String'', ''text/plain'', ''b'']])) \<and>
   \<not> distinct (path_bindings (parse_parameters
     [[''id'', ''query'', ''optional'', ''String'', ''text/plain'', ''a''],
      [''id'', ''header'', ''optional'', ''String'', ''text/plain'', ''b'']]) @
   kw_bindings (parse_parameters
     [[''id'', ''query'', ''optional'', ''String'', ''text/plain'', ''a''],
      [''id'', ''header'', ''optional'', ''String'', ''text/plain'', ''b'']]))"
  by code_simp





end
